theory Spec2Isabelle
  imports Complex_Main "HOL-Library.Char_ord" "HOL-Library.List_Lexorder" "HOL-Library.Sublist"
begin

section \<open>Data model\<close>

text \<open>
  The repository rows that the modelled operations read or write (database.py, the
  \<^verbatim>\<open>users\<close>, \<^verbatim>\<open>unsubscriptions\<close>, \<^verbatim>\<open>cities\<close> and \<^verbatim>\<open>city_aliases\<close> tables). A table is a
  list of rows in storage order. Database timestamps are the ISO strings the SQLite branch
  writes; the clock readings of \<^verbatim>\<open>time.time()\<close> are real numbers.
\<close>

record user_row =
  u_id :: int
  tg_id :: int
  username :: "string option"
  first_name :: "string option"
  is_active :: bool
  is_blocked :: bool
  updated_at :: string

record unsubscription_row =
  unsub_user_id :: int
  unsub_reason :: string
  unsub_created_at :: string

record city_row =
  code :: string
  name_uk :: string
  channel_url :: "string option"
  city_is_active :: bool

record alias_row =
  city_code :: string
  alias_name :: string

record database =
  users :: "user_row list"
  unsubscriptions :: "unsubscription_row list"
  cities :: "city_row list"
  city_aliases :: "alias_row list"

text \<open>The states of \<^verbatim>\<open>BotStates\<close> and one user's FSM context (state and data).\<close>

datatype bot_states =
  waiting_for_city | waiting_for_broadcast_message | waiting_for_rental_form | admin_menu

record fsm_context =
  fsm_state :: "bot_states option"
  fsm_data :: "string \<rightharpoonup> string"

definition fsm_clear :: fsm_context where
  "fsm_clear = \<lparr>fsm_state = None, fsm_data = Map.empty\<rparr>"

text \<open>
  The texts the handlers send. The wording (Ukrainian, with the wall-clock time in some of
  them) is not modelled; a text is identified by its kind and the numbers it shows.
\<close>

record admin_stats =
  total_users :: nat
  active_users :: nat
  stat_blocked_users :: nat
  total_unsubscriptions :: nat
  new_users_7d :: nat
  unsubscribed_7d :: nat
  top_cities :: "(string \<times> nat) list"

datatype msg_text =
  NotRecognised
  | NoAccess
  | AdminPanel nat nat
  | DetailedStats nat nat nat nat nat
  | ExtendedStats admin_stats nat nat
  | BroadcastPrompt nat
  | UsersInfo admin_stats
  | CachesCleared
  | NoUsersForBroadcast
  | NoContent
  | BroadcastStarting nat bool
  | BroadcastProgress nat nat nat nat
  | BroadcastDone nat nat nat bool real
  | HelpStamp real

datatype cache_key = MessageKey int int | HelpKey int

text \<open>The module-level mutable globals of maiin.py, the FSM storage and the database.\<close>

record bot =
  user_message_counts :: "int \<rightharpoonup> real list"
  last_message_times :: "int \<rightharpoonup> real"
  blocked_users :: "int set"
  subscription_cache :: "int \<rightharpoonup> (bool \<times> real)"
  message_cache :: "cache_key \<rightharpoonup> msg_text"
  storage :: "int \<Rightarrow> fsm_context"
  db :: database

section \<open>Anti-spam rate limiter\<close>

definition RATE_LIMIT_THRESHOLD :: nat where
  "RATE_LIMIT_THRESHOLD = 5"

definition RATE_LIMIT_WINDOW :: real where
  "RATE_LIMIT_WINDOW = 10"

definition MESSAGE_COOLDOWN :: real where
  "MESSAGE_COOLDOWN = 2"

text \<open>
  \<^verbatim>\<open>check_rate_limit(user_id)\<close>; \<open>current_time\<close> is the value \<^verbatim>\<open>time.time()\<close> returns in
  the call. The result is the returned boolean and the globals after the call. The
  warning written to the log when a user is blocked is not part of the state.
\<close>

definition prune :: "real \<Rightarrow> real list \<Rightarrow> real list" where
  "prune current_time ts =
     filter (\<lambda>msg_time. current_time - msg_time < RATE_LIMIT_WINDOW) ts"

definition check_rate_limit :: "int \<Rightarrow> real \<Rightarrow> bot \<Rightarrow> bool \<times> bot" where
  "check_rate_limit user_id current_time s =
     (if user_id \<in> blocked_users s then (False, s)
      else
        let counts0 = (case user_message_counts s user_id of None \<Rightarrow> [] | Some ts \<Rightarrow> ts);
            pruned = prune current_time counts0;
            s1 = s\<lparr>user_message_counts := (user_message_counts s)(user_id \<mapsto> pruned)\<rparr>
        in if (case last_message_times s1 user_id of
                 None \<Rightarrow> False
               | Some t \<Rightarrow> current_time - t < MESSAGE_COOLDOWN)
           then (False, s1)
           else if length pruned \<ge> RATE_LIMIT_THRESHOLD
           then (False, s1\<lparr>blocked_users := insert user_id (blocked_users s1)\<rparr>)
           else (True,
                 s1\<lparr>user_message_counts :=
                       (user_message_counts s1)(user_id \<mapsto> pruned @ [current_time]),
                    last_message_times :=
                       (last_message_times s1)(user_id \<mapsto> current_time)\<rparr>))"

text \<open>A run of calls for one user at the given clock readings, in order.\<close>

fun check_rate_limit_calls :: "int \<Rightarrow> real list \<Rightarrow> bot \<Rightarrow> bool list \<times> bot" where
  "check_rate_limit_calls user_id [] s = ([], s)"
| "check_rate_limit_calls user_id (t # ts) s =
     (let (r, s1) = check_rate_limit user_id t s;
          (rs, s2) = check_rate_limit_calls user_id ts s1
      in (r # rs, s2))"

definition empty_db :: database where
  "empty_db = \<lparr>users = [], unsubscriptions = [], cities = [], city_aliases = []\<rparr>"

text \<open>The globals as they are when the process starts.\<close>

definition initial_bot :: bot where
  "initial_bot =
     \<lparr>user_message_counts = Map.empty, last_message_times = Map.empty, blocked_users = {},
      subscription_cache = Map.empty, message_cache = Map.empty,
      storage = (\<lambda>_. fsm_clear), db = empty_db\<rparr>"

section \<open>Subscription cache\<close>

definition SUBSCRIPTION_CACHE_TTL :: real where
  "SUBSCRIPTION_CACHE_TTL = 300"

text \<open>
  What \<^verbatim>\<open>bot.get_chat_member(ESCADA_CHANNEL, user_id)\<close> does in one call: it returns a member
  whose status is the given string, or it raises.
\<close>

datatype chat_member_result = MemberStatus string | ApiError

text \<open>
  \<^verbatim>\<open>check_subscription_cached(user_id)\<close>. The transport is the parameter \<open>get_chat_member\<close>.
  The result is the returned boolean, the user ids for which the transport was asked in
  this call, and the globals after the call.
\<close>

definition check_subscription_cached ::
  "(int \<Rightarrow> chat_member_result) \<Rightarrow> int \<Rightarrow> real \<Rightarrow> bot \<Rightarrow> bool \<times> int list \<times> bot" where
  "check_subscription_cached get_chat_member user_id current_time s =
     (case (case subscription_cache s user_id of
              None \<Rightarrow> None
            | Some (is_subscribed, timestamp) \<Rightarrow>
                if current_time - timestamp < SUBSCRIPTION_CACHE_TTL
                then Some is_subscribed else None) of
        Some is_subscribed \<Rightarrow> (is_subscribed, [], s)
      | None \<Rightarrow>
          (case get_chat_member user_id of
             MemberStatus status \<Rightarrow>
               (let is_subscribed = (status \<in> set [''member'', ''administrator'', ''creator''])
                in (is_subscribed, [user_id],
                    s\<lparr>subscription_cache :=
                        (subscription_cache s)(user_id \<mapsto> (is_subscribed, current_time))\<rparr>))
           | ApiError \<Rightarrow> (False, [user_id], s)))"

section \<open>Repository operations\<close>

text \<open>
  \<^verbatim>\<open>Database.set_user_blocked(tg_id, is_blocked, reason)\<close>: the UPDATE of the matching
  \<^verbatim>\<open>users\<close> rows and, when \<open>is_blocked\<close> holds, the INSERT ... SELECT into
  \<^verbatim>\<open>unsubscriptions\<close>, both inside one transaction (one commit). \<open>now\<close> is the timestamp of
  the call. The \<^verbatim>\<open>unsubscriptions\<close> table has no uniqueness constraint besides its
  generated key, so the INSERT is never ignored.
\<close>

definition set_user_blocked :: "int \<Rightarrow> bool \<Rightarrow> string \<Rightarrow> string \<Rightarrow> database \<Rightarrow> database" where
  "set_user_blocked tg blocked_flag reason now d =
     (let users1 = map (\<lambda>u. if tg_id u = tg
                              then u\<lparr>is_active := \<not> blocked_flag, is_blocked := blocked_flag,
                                     updated_at := now\<rparr>
                              else u) (users d);
          d1 = d\<lparr>users := users1\<rparr>
      in if blocked_flag
         then d1\<lparr>unsubscriptions := unsubscriptions d1 @
                  map (\<lambda>u. \<lparr>unsub_user_id = u_id u, unsub_reason = reason,
                            unsub_created_at = now\<rparr>)
                      (filter (\<lambda>u. tg_id u = tg) users1)\<rparr>
         else d1)"

definition get_users_count :: "bool \<Rightarrow> database \<Rightarrow> nat" where
  "get_users_count active_only d =
     (if active_only then length (filter (\<lambda>u. is_active u \<and> \<not> is_blocked u) (users d))
      else length (users d))"

text \<open>
  \<^verbatim>\<open>Database.get_all_users()\<close>. Each returned dict is written with the key
  \<^verbatim>\<open>'user_id'\<close> twice, so it holds one entry, the second value: the row's \<^verbatim>\<open>tg_id\<close>.
  The model returns the list of these values.
\<close>

definition get_all_users :: "database \<Rightarrow> int list" where
  "get_all_users d = map tg_id (filter (\<lambda>u. is_active u \<and> \<not> is_blocked u) (users d))"

definition get_available_cities :: "database \<Rightarrow> city_row list" where
  "get_available_cities d =
     sort_key name_uk
       (filter (\<lambda>c. city_is_active c \<and> channel_url c \<noteq> None \<and> channel_url c \<noteq> Some [])
          (cities d))"

section \<open>City resolver\<close>

text \<open>
  Strings are lists of characters. Python's \<^verbatim>\<open>str.strip()\<close> removes leading and trailing
  whitespace; SQL's \<^verbatim>\<open>lower()\<close> (SQLite: ASCII letters only) and \<^verbatim>\<open>LIKE\<close> with its wildcards
  \<^verbatim>\<open>%\<close> (any run of characters) and \<^verbatim>\<open>_\<close> (any one character) are written out. Both arguments
  of \<^verbatim>\<open>LIKE\<close> have passed through \<^verbatim>\<open>lower()\<close>, so comparing characters for equality is what
  SQLite's ASCII case folding inside \<^verbatim>\<open>LIKE\<close> does as well.
\<close>

definition is_space :: "char \<Rightarrow> bool" where
  "is_space c = (let n = (of_char c :: nat) in (9 \<le> n \<and> n \<le> 13) \<or> (28 \<le> n \<and> n \<le> 32))"

definition strip :: "string \<Rightarrow> string" where
  "strip s = rev (dropWhile is_space (rev (dropWhile is_space s)))"

definition lower_char :: "char \<Rightarrow> char" where
  "lower_char c = (let n = (of_char c :: nat) in
                     if 65 \<le> n \<and> n \<le> 90 then char_of (n + 32) else c)"

definition sql_lower :: "string \<Rightarrow> string" where
  "sql_lower s = map lower_char s"

fun sql_like :: "string \<Rightarrow> string \<Rightarrow> bool" where
  "sql_like [] s = (s = [])"
| "sql_like (p # ps) s =
     (if p = CHR ''%'' then
        (sql_like ps s \<or> (case s of [] \<Rightarrow> False | c # cs \<Rightarrow> sql_like (p # ps) cs))
      else if p = CHR ''_'' then
        (case s of [] \<Rightarrow> False | c # cs \<Rightarrow> sql_like ps cs)
      else
        (case s of [] \<Rightarrow> False | c # cs \<Rightarrow> c = p \<and> sql_like ps cs))"

text \<open>The rows of \<^verbatim>\<open>city_aliases a JOIN cities c ON c.code = a.city_code\<close>, in alias order.\<close>

definition alias_join :: "database \<Rightarrow> (alias_row \<times> city_row) list" where
  "alias_join d =
     concat (map (\<lambda>a. map (\<lambda>c. (a, c)) (filter (\<lambda>c. code c = city_code a) (cities d)))
                 (city_aliases d))"

text \<open>The dict of a result row: \<^verbatim>\<open>code\<close>, \<^verbatim>\<open>name_uk\<close>, \<^verbatim>\<open>channel_url\<close>.\<close>

record city =
  city_code_of :: string
  city_name_uk :: string
  city_channel_url :: "string option"

definition row_dict :: "alias_row \<times> city_row \<Rightarrow> city" where
  "row_dict r = \<lparr>city_code_of = code (snd r), city_name_uk = name_uk (snd r),
                 city_channel_url = channel_url (snd r)\<rparr>"

definition find_city_by_alias :: "database \<Rightarrow> string \<Rightarrow> city option" where
  "find_city_by_alias d user_input =
     (case filter (\<lambda>r. sql_lower (alias_name (fst r)) = sql_lower (strip user_input)
                        \<and> city_is_active (snd r)) (alias_join d) of
        [] \<Rightarrow> None
      | row # _ \<Rightarrow> Some (row_dict row))"

definition find_cities_by_prefix :: "database \<Rightarrow> string \<Rightarrow> nat \<Rightarrow> city list" where
  "find_cities_by_prefix d prefix_input limit =
     map row_dict
       (take limit
          (sort_key (\<lambda>r. length (alias_name (fst r)))
             (filter (\<lambda>r. sql_like (sql_lower (strip prefix_input) @ ''%'')
                                    (sql_lower (alias_name (fst r)))
                           \<and> city_is_active (snd r)) (alias_join d))))"

definition find_city :: "database \<Rightarrow> string \<Rightarrow> city option" where
  "find_city d city_input =
     (case find_city_by_alias d city_input of
        Some c \<Rightarrow> Some c
      | None \<Rightarrow>
          (case find_cities_by_prefix d city_input 1 of
             [] \<Rightarrow> None
           | c # _ \<Rightarrow> Some c))"

section \<open>Broadcast engine\<close>

text \<open>
  An incoming message (\<^verbatim>\<open>message.from_user.id\<close>, \<^verbatim>\<open>message.text\<close>, \<^verbatim>\<open>message.caption\<close> and the
  file ids of \<^verbatim>\<open>message.photo\<close>), the three ways a delivery ends (it returns, it raises
  \<^verbatim>\<open>TelegramForbiddenError\<close>, it raises anything else), the calls made to the transport for
  the recipients, and what the handler shows to the sender.
\<close>

record message =
  from_user :: int
  text_of :: "string option"
  caption :: "string option"
  photo :: "string list option"

datatype delivery_outcome = Delivered | Forbidden | OtherError

datatype outbound =
  SendMessage int "string option"
  | SendPhoto int "string option" "string option"

datatype reply =
  Answer msg_text
  | EditText msg_text
  | AnswerCallback "msg_text option" bool

datatype py_error = IndexError | ZeroDivisionError

record broadcast_run =
  sent :: nat
  failed :: nat
  blocked :: nat
  run_db :: database
  attempts :: "outbound list"
  progress :: "reply list"

text \<open>
  The \<^verbatim>\<open>for user in users\<close> loop of \<^verbatim>\<open>process_broadcast\<close>: \<open>broadcast_step\<close> is its body,
  \<open>broadcast_loop\<close> runs the body for each recipient in order. \<open>deliver i chat\<close> is the
  outcome of the \<open>i\<close>-th call to the transport (counted from 0), made for \<open>chat\<close>;
  \<open>clock i\<close> is the timestamp the repository takes if that call ends in
  \<^verbatim>\<open>TelegramForbiddenError\<close>. The pause of 0.05 s after each attempt has no effect on the
  state. A progress edit that fails is swallowed by the source, so only the request is
  recorded.
\<close>

definition payload :: "bool \<Rightarrow> string option \<Rightarrow> string option \<Rightarrow> int \<Rightarrow> outbound" where
  "payload is_photo photo_file_id text_content user =
     (if is_photo then SendPhoto user photo_file_id text_content
      else SendMessage user text_content)"

definition broadcast_step ::
  "(nat \<Rightarrow> int \<Rightarrow> delivery_outcome) \<Rightarrow> (nat \<Rightarrow> string) \<Rightarrow> bool \<Rightarrow> string option \<Rightarrow>
   string option \<Rightarrow> nat \<Rightarrow> int \<Rightarrow> broadcast_run \<Rightarrow> broadcast_run" where
  "broadcast_step deliver clock is_photo photo_file_id text_content n_users user r =
     (let i = length (attempts r);
          r1 = r\<lparr>attempts := attempts r @ [payload is_photo photo_file_id text_content user]\<rparr>;
          r2 = (case deliver i user of
                  Delivered \<Rightarrow> r1\<lparr>sent := sent r1 + 1\<rparr>
                | Forbidden \<Rightarrow>
                    r1\<lparr>blocked := blocked r1 + 1,
                       run_db := set_user_blocked user True ''blocked'' (clock i) (run_db r1)\<rparr>
                | OtherError \<Rightarrow> r1\<lparr>failed := failed r1 + 1\<rparr>)
      in if (sent r2 + failed r2 + blocked r2) mod 10 = 0
         then r2\<lparr>progress := progress r2 @
                   [EditText (BroadcastProgress (sent r2) (failed r2) (blocked r2) n_users)]\<rparr>
         else r2)"

fun broadcast_loop ::
  "(nat \<Rightarrow> int \<Rightarrow> delivery_outcome) \<Rightarrow> (nat \<Rightarrow> string) \<Rightarrow> bool \<Rightarrow> string option \<Rightarrow>
   string option \<Rightarrow> nat \<Rightarrow> int list \<Rightarrow> broadcast_run \<Rightarrow> broadcast_run" where
  "broadcast_loop deliver clock is_photo photo_file_id text_content n_users [] r = r"
| "broadcast_loop deliver clock is_photo photo_file_id text_content n_users (user # rest) r =
     broadcast_loop deliver clock is_photo photo_file_id text_content n_users rest
       (broadcast_step deliver clock is_photo photo_file_id text_content n_users user r)"

text \<open>Python's \<^verbatim>\<open>sent/(sent+failed+blocked)*100\<close>: the division raises on a zero divisor.\<close>

definition success_rate :: "nat \<Rightarrow> nat \<Rightarrow> nat \<Rightarrow> py_error + real" where
  "success_rate s f b =
     (if s + f + b = 0 then Inl ZeroDivisionError
      else Inr (real s / real (s + f + b) * 100))"

text \<open>What a handler run leaves behind: the exception that ended it, if any, what it
  showed to the sender, the delivery calls it made, and the globals.\<close>

record handler_result =
  raised :: "py_error option"
  replies :: "reply list"
  sends :: "outbound list"
  after :: bot

definition set_fsm :: "int \<Rightarrow> fsm_context \<Rightarrow> bot \<Rightarrow> bot" where
  "set_fsm uid c s = s\<lparr>storage := (storage s)(uid := c)\<rparr>"

definition state_clear :: "int \<Rightarrow> bot \<Rightarrow> bot" where
  "state_clear uid s = set_fsm uid fsm_clear s"

definition set_state :: "int \<Rightarrow> bot_states \<Rightarrow> bot \<Rightarrow> bot" where
  "set_state uid st s = set_fsm uid ((storage s uid)\<lparr>fsm_state := Some st\<rparr>) s"

text \<open>
  \<^verbatim>\<open>process_broadcast(message, state)\<close>, the handler of the state
  \<^verbatim>\<open>waiting_for_broadcast_message\<close>. \<open>ADMIN_ID\<close> is the configured administrator id.
\<close>

definition process_broadcast ::
  "int \<Rightarrow> (nat \<Rightarrow> int \<Rightarrow> delivery_outcome) \<Rightarrow> (nat \<Rightarrow> string) \<Rightarrow> message \<Rightarrow> bot \<Rightarrow>
   handler_result" where
  "process_broadcast ADMIN_ID deliver clock m s =
     (if from_user m \<noteq> ADMIN_ID
      then \<lparr>raised = None, replies = [], sends = [], after = s\<rparr>
      else
        let users_list = get_all_users (db s) in
        if users_list = []
        then \<lparr>raised = None, replies = [Answer NoUsersForBroadcast], sends = [],
              after = state_clear (from_user m) s\<rparr>
        else
          let is_photo = (photo m \<noteq> None);
              text_content = (if is_photo then caption m else text_of m)
          in if photo m = Some []
             then \<lparr>raised = Some IndexError, replies = [], sends = [], after = s\<rparr>
             else
               let photo_file_id = (case photo m of None \<Rightarrow> None | Some ps \<Rightarrow> Some (last ps))
               in if (text_content = None \<or> text_content = Some []) \<and> \<not> is_photo
                  then \<lparr>raised = None, replies = [Answer NoContent], sends = [], after = s\<rparr>
                  else
                    let start = Answer (BroadcastStarting (length users_list) is_photo);
                        r = broadcast_loop deliver clock is_photo photo_file_id text_content
                              (length users_list) users_list
                              \<lparr>sent = 0, failed = 0, blocked = 0, run_db = db s,
                               attempts = [], progress = []\<rparr>;
                        s1 = s\<lparr>db := run_db r\<rparr>
                    in case success_rate (sent r) (failed r) (blocked r) of
                         Inl e \<Rightarrow> \<lparr>raised = Some e, replies = start # progress r,
                                   sends = attempts r, after = s1\<rparr>
                       | Inr rate \<Rightarrow>
                           \<lparr>raised = None,
                            replies = start # progress r @
                              [EditText (BroadcastDone (sent r) (failed r) (blocked r)
                                           is_photo rate)],
                            sends = attempts r,
                            after = state_clear (from_user m) s1\<rparr>)"

section \<open>Administrator handlers\<close>

record callback =
  cb_from_user :: int
  cb_chat_id :: int
  cb_message_id :: int

datatype edit_outcome = Edited | BadRequest | EditFailed

text \<open>
  \<^verbatim>\<open>safe_edit_message(callback, text, reply_markup)\<close>; \<open>outcome\<close> is what
  \<^verbatim>\<open>callback.message.edit_text\<close> does if it is called. The fallback answer after a failed
  edit is best effort in the source; the request is recorded.
\<close>

definition safe_edit_message :: "edit_outcome \<Rightarrow> callback \<Rightarrow> msg_text \<Rightarrow> bot \<Rightarrow> reply list \<times> bot" where
  "safe_edit_message outcome cb txt s =
     (let message_key = MessageKey (cb_chat_id cb) (cb_message_id cb)
      in if message_cache s message_key = Some txt
         then ([AnswerCallback None False], s)
         else (case outcome of
                 Edited \<Rightarrow>
                   ([EditText txt], s\<lparr>message_cache := (message_cache s)(message_key \<mapsto> txt)\<rparr>)
               | BadRequest \<Rightarrow> ([AnswerCallback None False], s)
               | EditFailed \<Rightarrow> ([Answer txt], s)))"

definition cmd_admin :: "int \<Rightarrow> message \<Rightarrow> bot \<Rightarrow> reply list \<times> bot" where
  "cmd_admin ADMIN_ID m s =
     (if from_user m \<noteq> ADMIN_ID then ([Answer NotRecognised], s)
      else
        let s1 = set_state (from_user m) admin_menu s;
            users_count = get_users_count True (db s1);
            available_cities = length (get_available_cities (db s1))
        in ([Answer (AdminPanel users_count available_cities)], s1))"

definition cmd_stats :: "int \<Rightarrow> message \<Rightarrow> bot \<Rightarrow> reply list \<times> bot" where
  "cmd_stats ADMIN_ID m s =
     (if from_user m \<noteq> ADMIN_ID then ([Answer NotRecognised], s)
      else
        let users_count = get_users_count True (db s);
            available_cities = length (get_available_cities (db s))
        in ([Answer (DetailedStats users_count available_cities (card (blocked_users s))
                       (card (dom (subscription_cache s))) (card (dom (message_cache s))))],
            s))"

text \<open>
  \<^verbatim>\<open>Database.log_admin_action\<close> is not in the sources at hand and \<^verbatim>\<open>Database.get_admin_stats\<close>
  only in part; the handlers that call them take them as the parameters \<open>log_admin_action\<close>
  and \<open>get_admin_stats\<close>.
\<close>

definition admin_stats_callback ::
  "int \<Rightarrow> (int \<Rightarrow> string \<Rightarrow> database \<Rightarrow> database) \<Rightarrow> (database \<Rightarrow> admin_stats) \<Rightarrow>
   edit_outcome \<Rightarrow> callback \<Rightarrow> bot \<Rightarrow> reply list \<times> bot" where
  "admin_stats_callback ADMIN_ID log_admin_action get_admin_stats outcome cb s =
     (if cb_from_user cb \<noteq> ADMIN_ID then ([AnswerCallback (Some NoAccess) True], s)
      else
        let s1 = s\<lparr>db := log_admin_action (cb_from_user cb) ''view_stats'' (db s)\<rparr>;
            stats = get_admin_stats (db s1);
            available_cities = length (get_available_cities (db s1))
        in safe_edit_message outcome cb
             (ExtendedStats stats available_cities (card (dom (subscription_cache s1)))) s1)"

definition admin_broadcast_callback ::
  "int \<Rightarrow> edit_outcome \<Rightarrow> callback \<Rightarrow> bot \<Rightarrow> reply list \<times> bot" where
  "admin_broadcast_callback ADMIN_ID outcome cb s =
     (if cb_from_user cb \<noteq> ADMIN_ID then ([AnswerCallback (Some NoAccess) True], s)
      else
        let users_count = get_users_count True (db s);
            (out, s1) = safe_edit_message outcome cb (BroadcastPrompt users_count) s;
            s2 = set_state (cb_from_user cb) waiting_for_broadcast_message s1
        in (out @ [AnswerCallback None False], s2))"

definition admin_users_callback ::
  "int \<Rightarrow> (database \<Rightarrow> admin_stats) \<Rightarrow> edit_outcome \<Rightarrow> callback \<Rightarrow> bot \<Rightarrow> reply list \<times> bot" where
  "admin_users_callback ADMIN_ID get_admin_stats outcome cb s =
     (if cb_from_user cb \<noteq> ADMIN_ID then ([AnswerCallback (Some NoAccess) True], s)
      else safe_edit_message outcome cb (UsersInfo (get_admin_stats (db s))) s)"

definition admin_clear_cache :: "int \<Rightarrow> callback \<Rightarrow> bot \<Rightarrow> reply list \<times> bot" where
  "admin_clear_cache ADMIN_ID cb s =
     (if cb_from_user cb \<noteq> ADMIN_ID then ([AnswerCallback (Some NoAccess) True], s)
      else ([AnswerCallback (Some CachesCleared) True],
            s\<lparr>user_message_counts := Map.empty, last_message_times := Map.empty,
              blocked_users := {}, subscription_cache := Map.empty,
              message_cache := Map.empty\<rparr>))"

section \<open>Auxiliary notions and example inputs\<close>

text \<open>
  Timestamps that lie at least one cooldown apart, and the relation between a user's
  recorded timestamps and the time of the last admitted event that \<open>check_rate_limit\<close>
  maintains.
\<close>

definition spaced :: "real list \<Rightarrow> bool" where
  "spaced ts = sorted_wrt (\<lambda>a b. a + MESSAGE_COOLDOWN \<le> b) ts"

definition limiter_inv :: "int \<Rightarrow> bot \<Rightarrow> bool" where
  "limiter_inv u s =
     (case user_message_counts s u of
        None \<Rightarrow> True
      | Some ts \<Rightarrow> spaced ts \<and> (\<forall>x\<in>set ts. \<exists>t. last_message_times s u = Some t \<and> x \<le> t))"

text \<open>
  The globals that the anti-spam code can produce: the only functions that write
  \<open>user_message_counts\<close>, \<open>last_message_times\<close> and \<open>blocked_users\<close> are \<open>check_rate_limit\<close>
  and \<open>admin_clear_cache\<close>.
\<close>

inductive reachable :: "bot \<Rightarrow> bool" where
  reachable_initial: "reachable initial_bot"
| reachable_call: "reachable s \<Longrightarrow> reachable (snd (check_rate_limit u now s))"
| reachable_clear: "reachable s \<Longrightarrow> reachable (snd (admin_clear_cache A cb s))"

text \<open>
  The outcomes of the transport calls a broadcast makes for the recipients \<open>us\<close> when
  \<open>k\<close> calls have been made before.
\<close>

fun outcomes :: "(nat \<Rightarrow> int \<Rightarrow> delivery_outcome) \<Rightarrow> nat \<Rightarrow> int list \<Rightarrow> delivery_outcome list" where
  "outcomes deliver k [] = []"
| "outcomes deliver k (u # us) = deliver k u # outcomes deliver (Suc k) us"


text \<open>A transport whose membership lookup always raises, and one that always finds a member.\<close>

definition api_down :: "int \<Rightarrow> chat_member_result" where
  "api_down = (\<lambda>_. ApiError)"

definition api_member :: "int \<Rightarrow> chat_member_result" where
  "api_member = (\<lambda>_. MemberStatus ''member'')"

text \<open>A database with three active users A, B and C (tg ids 101, 102, 103).\<close>

definition user_a :: user_row where
  "user_a = \<lparr>u_id = 1, tg_id = 101, username = Some ''anna'', first_name = Some ''Anna'',
             is_active = True, is_blocked = False, updated_at = ''2024-01-01T00:00:00''\<rparr>"

definition user_b :: user_row where
  "user_b = \<lparr>u_id = 2, tg_id = 102, username = None, first_name = Some ''Bohdan'',
             is_active = True, is_blocked = False, updated_at = ''2024-01-02T00:00:00''\<rparr>"

definition user_c :: user_row where
  "user_c = \<lparr>u_id = 3, tg_id = 103, username = Some ''chris'', first_name = None,
             is_active = True, is_blocked = False, updated_at = ''2024-01-03T00:00:00''\<rparr>"

definition abc_db :: database where
  "abc_db = empty_db\<lparr>users := [user_a, user_b, user_c]\<rparr>"

text \<open>
  Inputs of a broadcast: the administrator (id 1) sends the text hello; a transport on
  which every delivery succeeds, and one on which the deliveries to chat 102 are refused;
  a clock that stands still; the globals with the three users A, B and C in the database.
\<close>

definition hello_message :: message where
  "hello_message = \<lparr>from_user = 1, text_of = Some ''hello'', caption = None, photo = None\<rparr>"

definition all_delivered :: "nat \<Rightarrow> int \<Rightarrow> delivery_outcome" where
  "all_delivered = (\<lambda>_ _. Delivered)"

definition b_forbidden :: "nat \<Rightarrow> int \<Rightarrow> delivery_outcome" where
  "b_forbidden = (\<lambda>_ chat. if chat = 102 then Forbidden else Delivered)"

definition fixed_clock :: "nat \<Rightarrow> string" where
  "fixed_clock = (\<lambda>_. ''2024-02-01T10:00:00'')"

definition abc_bot :: bot where
  "abc_bot = initial_bot\<lparr>db := abc_db\<rparr>"

text \<open>
  Inputs from somebody who is not the administrator (id 999), and stand-ins for the two
  repository operations the statistics handlers take as parameters.
\<close>

definition outsider_message :: message where
  "outsider_message = \<lparr>from_user = 999, text_of = Some ''hello'', caption = None, photo = None\<rparr>"

definition outsider_callback :: callback where
  "outsider_callback = \<lparr>cb_from_user = 999, cb_chat_id = 999, cb_message_id = 5\<rparr>"

definition no_log :: "int \<Rightarrow> string \<Rightarrow> database \<Rightarrow> database" where
  "no_log = (\<lambda>_ _ d. d)"

definition count_stats :: "database \<Rightarrow> admin_stats" where
  "count_stats d =
     \<lparr>total_users = length (users d), active_users = get_users_count True d,
      stat_blocked_users = length (filter is_blocked (users d)),
      total_unsubscriptions = length (unsubscriptions d),
      new_users_7d = 0, unsubscribed_7d = 0, top_cities = []\<rparr>"

text \<open>
  A database with the active city Kyiv, reachable under the aliases Kyiv and Kiev, and the
  inactive city Kyivets with the alias Kyi.
\<close>

definition kyiv_city :: city_row where
  "kyiv_city = \<lparr>code = ''kyiv'', name_uk = ''Kyiv'', channel_url = Some ''https://t.me/kyiv'',
                city_is_active = True\<rparr>"

definition kyivets_city :: city_row where
  "kyivets_city = \<lparr>code = ''kyivets'', name_uk = ''Kyivets'', channel_url = None,
                   city_is_active = False\<rparr>"

definition kyiv_db :: database where
  "kyiv_db = empty_db\<lparr>cities := [kyiv_city, kyivets_city],
                       city_aliases := [\<lparr>city_code = ''kyivets'', alias_name = ''Kyi''\<rparr>,
                                        \<lparr>city_code = ''kyiv'', alias_name = ''Kyiv''\<rparr>,
                                        \<lparr>city_code = ''kyiv'', alias_name = ''Kiev''\<rparr>]\<rparr>"

definition kyiv_dict :: city where
  "kyiv_dict = \<lparr>city_code_of = ''kyiv'', city_name_uk = ''Kyiv'',
                city_channel_url = Some ''https://t.me/kyiv''\<rparr>"

section \<open>Rate limiter: properties\<close>

lemma check_rate_limit_blocked:
  "u \<in> blocked_users s \<Longrightarrow> check_rate_limit u t s = (False, s)"
  by (simp add: check_rate_limit_def)

lemma check_rate_limit_calls_blocked:
  "u \<in> blocked_users s \<Longrightarrow> check_rate_limit_calls u ts s = (replicate (length ts) False, s)"
  by (induction ts) (simp_all add: check_rate_limit_blocked)

lemma check_rate_limit_after_clear:
  "fst (check_rate_limit u t (snd (admin_clear_cache A \<lparr>cb_from_user = A, cb_chat_id = c, cb_message_id = i\<rparr> s)))"
  by (simp add: admin_clear_cache_def check_rate_limit_def Let_def prune_def RATE_LIMIT_THRESHOLD_def)

text \<open>
  Calls of \<open>check_rate_limit\<close> keep a user's recorded timestamps at least a cooldown
  apart and not after the time of the last admitted event. A window of 10 s then holds
  fewer than five of them whenever the cooldown of 2 s has elapsed, so that calls of
  \<open>check_rate_limit\<close> alone, from the initial globals, never add a user to the block set.
\<close>

lemma spaced_span:
  "spaced (x # ts) \<Longrightarrow> \<forall>y\<in>set (x # ts). y \<le> hi \<Longrightarrow> x + MESSAGE_COOLDOWN * real (length ts) \<le> hi"
proof (induction ts arbitrary: x)
  case Nil
  then show ?case by simp
next
  case (Cons y ys)
  from Cons.prems have "spaced (y # ys)" and "\<forall>z\<in>set (y # ys). z \<le> hi" and "x + MESSAGE_COOLDOWN \<le> y"
    by (simp_all add: spaced_def)
  with Cons.IH [of y] have "y + MESSAGE_COOLDOWN * real (length ys) \<le> hi" by blast
  with \<open>x + MESSAGE_COOLDOWN \<le> y\<close> show ?case by (simp add: algebra_simps)
qed

lemma spaced_prune: "spaced ts \<Longrightarrow> spaced (prune now ts)"
  unfolding spaced_def prune_def by (rule sorted_wrt_filter)

lemma spaced_window_short:
  assumes "spaced ts" and "\<forall>x\<in>set ts. x \<le> t" and "\<not> (now - t < MESSAGE_COOLDOWN)"
  shows "length (prune now ts) < RATE_LIMIT_THRESHOLD"
proof (cases "prune now ts")
  case Nil
  then show ?thesis by (simp add: RATE_LIMIT_THRESHOLD_def)
next
  case (Cons x xs)
  have sp: "spaced (x # xs)" using spaced_prune [OF assms(1), of now] Cons by simp
  have sub: "set (x # xs) \<subseteq> set ts" using Cons [symmetric] by (auto simp: prune_def)
  then have "\<forall>y\<in>set (x # xs). y \<le> t" using assms(2) by blast
  from spaced_span [OF sp this] have a: "x + MESSAGE_COOLDOWN * real (length xs) \<le> t" .
  have "x \<in> set (prune now ts)" using Cons by simp
  then have b: "now - x < RATE_LIMIT_WINDOW" by (simp add: prune_def)
  from a b assms(3) have "MESSAGE_COOLDOWN * real (length xs) + MESSAGE_COOLDOWN < RATE_LIMIT_WINDOW"
    by linarith
  then have "real (length xs) < 4"
    by (simp add: MESSAGE_COOLDOWN_def RATE_LIMIT_WINDOW_def)
  then show ?thesis using Cons by (simp add: RATE_LIMIT_THRESHOLD_def)
qed

lemma limiter_inv_never_blocks:
  assumes "limiter_inv u s"
  shows "blocked_users (snd (check_rate_limit u now s)) = blocked_users s"
proof (cases "user_message_counts s u")
  case None
  then show ?thesis
    by (simp add: check_rate_limit_def Let_def prune_def RATE_LIMIT_THRESHOLD_def split: option.splits)
next
  case cs: (Some ts)
  show ?thesis
  proof (cases "last_message_times s u")
    case None
    with cs assms have "ts = []" by (cases ts) (auto simp: limiter_inv_def)
    with cs None show ?thesis
      by (simp add: check_rate_limit_def Let_def prune_def RATE_LIMIT_THRESHOLD_def)
  next
    case lt: (Some t)
    from cs lt assms have sp: "spaced ts" and le: "\<forall>x\<in>set ts. x \<le> t"
      by (auto simp: limiter_inv_def)
    show ?thesis
    proof (cases "now - t < MESSAGE_COOLDOWN")
      case True
      with cs lt show ?thesis by (simp add: check_rate_limit_def Let_def)
    next
      case False
      from spaced_window_short [OF sp le False] cs lt False show ?thesis
        by (simp add: check_rate_limit_def Let_def)
    qed
  qed
qed

lemma spaced_snoc: "spaced ts \<Longrightarrow> \<forall>x\<in>set ts. x + MESSAGE_COOLDOWN \<le> t \<Longrightarrow> spaced (ts @ [t])"
  by (simp add: spaced_def sorted_wrt_append)

lemma limiter_inv_step:
  assumes "limiter_inv u s"
  shows "limiter_inv u (snd (check_rate_limit u now s))"
proof -
  let ?ts = "case user_message_counts s u of None \<Rightarrow> [] | Some ts \<Rightarrow> ts"
  have sp: "spaced ?ts" using assms by (auto simp: limiter_inv_def spaced_def split: option.splits)
  have le: "\<forall>x\<in>set ?ts. \<exists>t. last_message_times s u = Some t \<and> x \<le> t"
    using assms by (auto simp: limiter_inv_def split: option.splits)
  have sp': "spaced (prune now ?ts)" by (rule spaced_prune [OF sp])
  have le': "\<forall>x\<in>set (prune now ?ts). \<exists>t. last_message_times s u = Some t \<and> x \<le> t"
    using le by (auto simp: prune_def)
  have snoc: "spaced (prune now ?ts @ [now])"
    if "\<forall>t. last_message_times s u = Some t \<longrightarrow> \<not> now - t < MESSAGE_COOLDOWN"
  proof (rule spaced_snoc [OF sp'], rule ballI)
    fix x assume "x \<in> set (prune now ?ts)"
    with le' obtain t where "last_message_times s u = Some t" "x \<le> t" by blast
    with that show "x + MESSAGE_COOLDOWN \<le> now" by fastforce
  qed
  have le2: "\<forall>x\<in>set (prune now ?ts). x \<le> now"
    if "\<forall>t. last_message_times s u = Some t \<longrightarrow> \<not> now - t < MESSAGE_COOLDOWN"
  proof
    fix x assume "x \<in> set (prune now ?ts)"
    with le' obtain t where "last_message_times s u = Some t" "x \<le> t" by blast
    with that show "x \<le> now" by (fastforce simp: MESSAGE_COOLDOWN_def)
  qed
  show ?thesis
  proof (cases "u \<in> blocked_users s")
    case True
    with assms show ?thesis by (simp add: check_rate_limit_def)
  next
    case False
    then show ?thesis
      using sp' le' snoc le2
      by (auto simp: check_rate_limit_def Let_def limiter_inv_def split: option.splits)
  qed
qed

lemma limiter_inv_initial: "limiter_inv u initial_bot"
  by (simp add: limiter_inv_def initial_bot_def)

lemma calls_never_block:
  "limiter_inv u s \<Longrightarrow> blocked_users (snd (check_rate_limit_calls u ts s)) = blocked_users s"
proof (induction ts arbitrary: s)
  case Nil
  then show ?case by simp
next
  case (Cons t ts)
  have "limiter_inv u (snd (check_rate_limit u t s))" by (rule limiter_inv_step [OF Cons.prems])
  from Cons.IH [OF this] limiter_inv_never_blocks [OF Cons.prems, of t]
  show ?case by (simp add: split_beta Let_def)
qed

text \<open>
  C6. When check_rate_limit has admitted an event of a user at time \<open>t1\<close> and the next
  call for that user comes at a time \<open>t2\<close> with \<open>t2 - t1 < 2\<close>, the call returns
  false; the time of the last admitted event stays \<open>t1\<close>, the user's timestamp sequence
  is only pruned to the window (\<open>t2\<close> is not appended), and nothing else changes.
\<close>

theorem cooldown_rejects_without_recording:
  assumes "check_rate_limit u t1 s = (True, s1)" and "t2 - t1 < MESSAGE_COOLDOWN"
  shows "\<exists>ts. user_message_counts s1 u = Some ts \<and> last_message_times s1 u = Some t1 \<and>
           check_rate_limit u t2 s1 =
             (False, s1\<lparr>user_message_counts := (user_message_counts s1)(u \<mapsto> prune t2 ts)\<rparr>)"
  using assms
  by (auto simp: check_rate_limit_def Let_def split: if_splits option.splits)

theorem cooldown_rejects_without_recording_witness:
  "check_rate_limit 7 100 initial_bot =
     (True, initial_bot\<lparr>user_message_counts := [7 \<mapsto> [100]], last_message_times := [7 \<mapsto> 100]\<rparr>) \<and>
   (101 :: real) - 100 < MESSAGE_COOLDOWN \<and>
   check_rate_limit 7 101
       (initial_bot\<lparr>user_message_counts := [7 \<mapsto> [100]], last_message_times := [7 \<mapsto> 100]\<rparr>) =
     (False, initial_bot\<lparr>user_message_counts := [7 \<mapsto> [100]], last_message_times := [7 \<mapsto> 100]\<rparr>)"
proof -
  let ?s1 = "initial_bot\<lparr>user_message_counts := [7 \<mapsto> [100]], last_message_times := [7 \<mapsto> 100]\<rparr>"
  have a: "check_rate_limit 7 100 initial_bot = (True, ?s1)"
    by (simp add: check_rate_limit_def initial_bot_def prune_def Let_def RATE_LIMIT_THRESHOLD_def)
  have b: "(101 :: real) - 100 < MESSAGE_COOLDOWN" by (simp add: MESSAGE_COOLDOWN_def)
  from cooldown_rejects_without_recording [OF a b]
  have "check_rate_limit 7 101 ?s1 = (False, ?s1)"
    by (simp add: initial_bot_def prune_def RATE_LIMIT_WINDOW_def)
  with a b show ?thesis by simp
qed

text \<open>
  In every state the anti-spam code can produce, whoever calls and whenever the
  administrator clears the caches, the block set is empty, and a call is admitted
  exactly when the cooldown has elapsed.
\<close>

lemma check_rate_limit_other_user:
  assumes "v \<noteq> u"
  shows "user_message_counts (snd (check_rate_limit u now s)) v = user_message_counts s v"
    and "last_message_times (snd (check_rate_limit u now s)) v = last_message_times s v"
  using assms by (simp_all add: check_rate_limit_def Let_def split: option.splits)

lemma limiter_inv_other_user:
  assumes "limiter_inv v s" and "v \<noteq> u"
  shows "limiter_inv v (snd (check_rate_limit u now s))"
  using assms(1) unfolding limiter_inv_def
  by (simp only: check_rate_limit_other_user [OF assms(2)])

lemma limiter_inv_call:
  assumes "\<forall>v. limiter_inv v s"
  shows "limiter_inv v (snd (check_rate_limit u now s))"
proof (cases "v = u")
  case True
  with assms limiter_inv_step [of u s now] show ?thesis by simp
next
  case False
  with assms limiter_inv_other_user [of v s u now] show ?thesis by simp
qed

lemma limiter_inv_clear:
  assumes "limiter_inv v s"
  shows "limiter_inv v (snd (admin_clear_cache A cb s))"
proof (cases "cb_from_user cb = A")
  case True
  then show ?thesis by (simp add: admin_clear_cache_def limiter_inv_def)
next
  case False
  with assms show ?thesis by (simp add: admin_clear_cache_def)
qed

lemma blocked_users_clear:
  "blocked_users s = {} \<Longrightarrow> blocked_users (snd (admin_clear_cache A cb s)) = {}"
  by (simp add: admin_clear_cache_def)

lemma reachable_invariant:
  "reachable s \<Longrightarrow> (\<forall>v. limiter_inv v s) \<and> blocked_users s = {}"
proof (induction rule: reachable.induct)
  case reachable_initial
  show ?case by (simp add: limiter_inv_initial) (simp add: initial_bot_def)
next
  case (reachable_call s u now)
  then have inv: "\<forall>v. limiter_inv v s" and nb: "blocked_users s = {}" by simp_all
  from inv have "limiter_inv u s" by simp
  from limiter_inv_never_blocks [OF this, of now] nb
  have "blocked_users (snd (check_rate_limit u now s)) = {}" by simp
  moreover have "\<forall>v. limiter_inv v (snd (check_rate_limit u now s))"
    using limiter_inv_call [OF inv] by simp
  ultimately show ?case by simp
next
  case (reachable_clear s A cb)
  then show ?case by (simp add: limiter_inv_clear blocked_users_clear)
qed

lemma reachable_never_blocked: "reachable s \<Longrightarrow> blocked_users s = {}"
  by (simp add: reachable_invariant)

lemma reachable_admits_after_cooldown:
  assumes "reachable s"
  shows "fst (check_rate_limit u now s) =
           (\<forall>t. last_message_times s u = Some t \<longrightarrow> \<not> now - t < MESSAGE_COOLDOWN)"
proof -
  from reachable_invariant [OF assms] have inv: "limiter_inv u s" and nb: "u \<notin> blocked_users s"
    by simp_all
  show ?thesis
  proof (cases "last_message_times s u")
    case None
    with inv have "(case user_message_counts s u of None \<Rightarrow> [] | Some ts \<Rightarrow> ts) = []"
      by (cases "user_message_counts s u")
        (auto simp: limiter_inv_def intro: list.exhaust [of _ "_ = []"] dest!: hd_in_set)
    with None nb show ?thesis
      by (simp add: check_rate_limit_def Let_def prune_def RATE_LIMIT_THRESHOLD_def)
  next
    case (Some t)
    show ?thesis
    proof (cases "now - t < MESSAGE_COOLDOWN")
      case True
      with Some nb show ?thesis by (simp add: check_rate_limit_def Let_def)
    next
      case False
      have "length (prune now (case user_message_counts s u of None \<Rightarrow> [] | Some ts \<Rightarrow> ts))
              < RATE_LIMIT_THRESHOLD"
      proof (cases "user_message_counts s u")
        case None
        then show ?thesis by (simp add: prune_def RATE_LIMIT_THRESHOLD_def)
      next
        case cs: (Some ts)
        with inv Some have "spaced ts" and "\<forall>x\<in>set ts. x \<le> t"
          by (auto simp: limiter_inv_def)
        from spaced_window_short [OF this False] cs show ?thesis by simp
      qed
      with Some False nb show ?thesis by (simp add: check_rate_limit_def Let_def)
    qed
  qed
qed

text \<open>
  C1. The specification has the rate limiter reject the fifth event of a user within the
  10 s window, put the user into the sticky block set and reject every later call until
  the administrator resets the state. The code does not do this. From the initial
  globals the events of user 7 at times 0, 2, 4, 6 and 8 are all admitted, the fifth
  among them, and the user is not blocked; a sixth event at time 9 is turned away by
  the cooldown only, and the user is still not blocked. The branch of
  \<open>check_rate_limit\<close> that adds a user to \<open>blocked_users\<close> is never taken
  (lemma \<open>reachable_never_blocked\<close>).
\<close>

theorem fifth_event_admitted:
  "fst (check_rate_limit_calls 7 [0, 2, 4, 6, 8] initial_bot) = [True, True, True, True, True] \<and>
   blocked_users (snd (check_rate_limit_calls 7 [0, 2, 4, 6, 8] initial_bot)) = {} \<and>
   fst (check_rate_limit_calls 7 [0, 2, 4, 6, 8, 9] initial_bot) =
     [True, True, True, True, True, False] \<and>
   blocked_users (snd (check_rate_limit_calls 7 [0, 2, 4, 6, 8, 9] initial_bot)) = {}"
  by (simp add: check_rate_limit_def initial_bot_def prune_def Let_def RATE_LIMIT_WINDOW_def
      MESSAGE_COOLDOWN_def RATE_LIMIT_THRESHOLD_def)

section \<open>Subscription cache: properties\<close>


lemma check_subscription_cached_miss:
  assumes "case subscription_cache s u of
             None \<Rightarrow> True
           | Some (b, T) \<Rightarrow> \<not> now - T < SUBSCRIPTION_CACHE_TTL"
  shows "check_subscription_cached g u now s =
     (case g u of
        MemberStatus status \<Rightarrow>
          (status \<in> set [''member'', ''administrator'', ''creator''], [u],
           s\<lparr>subscription_cache := (subscription_cache s)
                (u \<mapsto> (status \<in> set [''member'', ''administrator'', ''creator''], now))\<rparr>)
      | ApiError \<Rightarrow> (False, [u], s))"
proof (cases "subscription_cache s u")
  case None
  then show ?thesis
    by (cases "g u") (simp_all add: check_subscription_cached_def Let_def)
next
  case (Some p)
  obtain b T where "p = (b, T)" by (cases p)
  with Some assms have "\<not> now - T < SUBSCRIPTION_CACHE_TTL" by simp
  with Some \<open>p = (b, T)\<close> show ?thesis
    by (cases "g u") (simp_all add: check_subscription_cached_def Let_def)
qed



text \<open>
  C8. When the cache has no fresh entry for the user, so that the transport is asked:
  if the lookup raises, the result is false and the globals, the cache among them, are
  unchanged, so that any later call (at a clock reading not before this one) asks the
  transport again; if the lookup returns, the result is whether the status is member,
  administrator or creator, and that result is cached with the time of the call.
\<close>

theorem subscription_check_fails_closed:
  assumes "case subscription_cache s u of
             None \<Rightarrow> True
           | Some (b, T) \<Rightarrow> \<not> now - T < SUBSCRIPTION_CACHE_TTL"
  shows "(g u = ApiError \<longrightarrow>
            check_subscription_cached g u now s = (False, [u], s) \<and>
            (\<forall>g' now'. now \<le> now' \<longrightarrow>
               fst (snd (check_subscription_cached g' u now' s)) = [u])) \<and>
         (\<forall>status. g u = MemberStatus status \<longrightarrow>
            check_subscription_cached g u now s =
              (status \<in> set [''member'', ''administrator'', ''creator''], [u],
               s\<lparr>subscription_cache := (subscription_cache s)
                    (u \<mapsto> (status \<in> set [''member'', ''administrator'', ''creator''], now))\<rparr>))"
proof (intro conjI impI allI)
  assume "g u = ApiError"
  then show "check_subscription_cached g u now s = (False, [u], s)"
    by (simp add: check_subscription_cached_miss [OF assms])
next
  fix g' :: "int \<Rightarrow> chat_member_result" and now' :: real
  assume "now \<le> now'"
  with assms have "case subscription_cache s u of
             None \<Rightarrow> True
           | Some (b, T) \<Rightarrow> \<not> now' - T < SUBSCRIPTION_CACHE_TTL"
    by (cases "subscription_cache s u") auto
  then show "fst (snd (check_subscription_cached g' u now' s)) = [u]"
    by (cases "g' u") (simp_all add: check_subscription_cached_miss)
next
  fix status assume "g u = MemberStatus status"
  then show "check_subscription_cached g u now s =
              (status \<in> set [''member'', ''administrator'', ''creator''], [u],
               s\<lparr>subscription_cache := (subscription_cache s)
                    (u \<mapsto> (status \<in> set [''member'', ''administrator'', ''creator''], now))\<rparr>)"
    by (simp add: check_subscription_cached_miss [OF assms])
qed

theorem subscription_check_fails_closed_witness:
  "check_subscription_cached api_down 7 50 initial_bot = (False, [7], initial_bot) \<and>
   fst (snd (check_subscription_cached api_member 7 51 initial_bot)) = [7] \<and>
   check_subscription_cached api_member 7 50 initial_bot =
     (True, [7], initial_bot\<lparr>subscription_cache := [7 \<mapsto> (True, 50)]\<rparr>)"
proof -
  have h: "case subscription_cache initial_bot 7 of
             None \<Rightarrow> True
           | Some (b, T) \<Rightarrow> \<not> 50 - T < SUBSCRIPTION_CACHE_TTL"
    by (simp add: initial_bot_def)
  have g1: "api_down 7 = ApiError" by (simp add: api_down_def)
  have g2: "api_member 7 = MemberStatus ''member''" by (simp add: api_member_def)
  from subscription_check_fails_closed [OF h, of api_down] g1
  have a: "check_subscription_cached api_down 7 50 initial_bot = (False, [7], initial_bot)"
    and "\<forall>g' now'. 50 \<le> now' \<longrightarrow>
           fst (snd (check_subscription_cached g' 7 now' initial_bot)) = [7]"
    by blast+
  then have b: "fst (snd (check_subscription_cached api_member 7 51 initial_bot)) = [7]"
    by simp
  from subscription_check_fails_closed [OF h, of api_member] g2
  have "check_subscription_cached api_member 7 50 initial_bot =
      (''member'' \<in> set [''member'', ''administrator'', ''creator''], [7],
       initial_bot\<lparr>subscription_cache := (subscription_cache initial_bot)
          (7 \<mapsto> (''member'' \<in> set [''member'', ''administrator'', ''creator''], 50))\<rparr>)"
    by blast
  then have c: "check_subscription_cached api_member 7 50 initial_bot =
      (True, [7], initial_bot\<lparr>subscription_cache := [7 \<mapsto> (True, 50)]\<rparr>)"
    by (simp add: initial_bot_def)
  from a b c show ?thesis by blast
qed

section \<open>Repository: properties\<close>

lemma users_set_user_blocked:
  "users (set_user_blocked tg b reason now d) =
     map (\<lambda>u. if tg_id u = tg
               then u\<lparr>is_active := \<not> b, is_blocked := b, updated_at := now\<rparr> else u) (users d)"
  by (simp add: set_user_blocked_def Let_def)

lemma filter_tg_update:
  "filter (\<lambda>u. tg_id u = tg) (map (\<lambda>u. if tg_id u = tg then f u else u) us) =
   map f (filter (\<lambda>u. tg_id u = tg) us)" if "\<And>u. tg_id (f u) = tg_id u"
  by (induction us) (simp_all add: that)


lemma unsubscriptions_set_user_blocked:
  "unsubscriptions (set_user_blocked tg True reason now d) =
     unsubscriptions d @
       map (\<lambda>u. \<lparr>unsub_user_id = u_id u, unsub_reason = reason, unsub_created_at = now\<rparr>)
         (filter (\<lambda>u. tg_id u = tg) (users d))"
proof -
  let ?f = "\<lambda>u. u\<lparr>is_active := \<not> True, is_blocked := True, updated_at := now\<rparr>"
  have "filter (\<lambda>u. tg_id u = tg) (map (\<lambda>u. if tg_id u = tg then ?f u else u) (users d)) =
        map ?f (filter (\<lambda>u. tg_id u = tg) (users d))"
    by (rule filter_tg_update) simp
  then have "unsubscriptions (set_user_blocked tg True reason now d) =
     unsubscriptions d @
       map (\<lambda>u. \<lparr>unsub_user_id = u_id u, unsub_reason = reason, unsub_created_at = now\<rparr>)
         (map ?f (filter (\<lambda>u. tg_id u = tg) (users d)))"
    unfolding set_user_blocked_def Let_def by simp
  then show ?thesis by (simp add: comp_def)
qed


lemma set_user_blocked_row:
  assumes "u \<in> set (users (set_user_blocked tg b reason now d))" and "tg_id u = tg"
  shows "is_blocked u = b \<and> is_active u = (\<not> b)"
proof -
  from assms(1) obtain v where v: "v \<in> set (users d)"
    and u: "u = (if tg_id v = tg
                 then v\<lparr>is_active := \<not> b, is_blocked := b, updated_at := now\<rparr> else v)"
    unfolding users_set_user_blocked by (auto simp only: set_map image_iff)
  show ?thesis
  proof (cases "tg_id v = tg")
    case True
    with u show ?thesis by simp
  next
    case False
    with u assms(2) show ?thesis by simp
  qed
qed

lemma set_user_blocked_tg_ids:
  "map tg_id (users (set_user_blocked tg b reason now d)) = map tg_id (users d)"
  unfolding users_set_user_blocked by (rule nth_equalityI) simp_all

lemma set_user_blocked_not_recipient:
  "tg \<notin> set (get_all_users (set_user_blocked tg True reason now d))"
proof
  assume "tg \<in> set (get_all_users (set_user_blocked tg True reason now d))"
  then obtain u where "u \<in> set (users (set_user_blocked tg True reason now d))"
    and "tg_id u = tg" and "is_active u"
    unfolding get_all_users_def by (auto simp only: set_map set_filter image_iff mem_Collect_eq)
  with set_user_blocked_row [of u tg True reason now d] show False by simp
qed

text \<open>
  C10. set_user_blocked writes the negation of \<open>is_blocked\<close> into \<open>is_active\<close> of every
  row it updates, in the same UPDATE: blocking deactivates the user and unblocking
  reactivates them. No row is added or removed and no tg id changes, and after blocking
  the user is not in the recipient list get_all_users returns.
\<close>

theorem set_user_blocked_couples_is_active:
  "(\<forall>u\<in>set (users (set_user_blocked tg b reason now d)).
       tg_id u = tg \<longrightarrow> is_blocked u = b \<and> is_active u = (\<not> b)) \<and>
   map tg_id (users (set_user_blocked tg b reason now d)) = map tg_id (users d) \<and>
   tg \<notin> set (get_all_users (set_user_blocked tg True reason now d))"
  using set_user_blocked_row [of _ tg b reason now d]
    set_user_blocked_tg_ids [of tg b reason now d]
    set_user_blocked_not_recipient [of tg reason now d]
  by blast

theorem set_user_blocked_couples_is_active_witness:
  "user_b\<lparr>is_active := False, is_blocked := True, updated_at := ''2024-02-01T10:00:00''\<rparr>
     \<in> set (users (set_user_blocked 102 True ''blocked'' ''2024-02-01T10:00:00'' abc_db)) \<and>
   102 \<notin> set (get_all_users
     (set_user_blocked 102 True ''blocked'' ''2024-02-01T10:00:00'' abc_db)) \<and>
   get_all_users abc_db = [101, 102, 103] \<and>
   get_all_users (set_user_blocked 102 True ''blocked'' ''2024-02-01T10:00:00'' abc_db) =
     [101, 103] \<and>
   get_all_users (set_user_blocked 102 False ''blocked'' ''2024-02-02T10:00:00''
     (set_user_blocked 102 True ''blocked'' ''2024-02-01T10:00:00'' abc_db)) = [101, 102, 103]"
proof -
  let ?d = "set_user_blocked 102 True ''blocked'' ''2024-02-01T10:00:00'' abc_db"
  let ?b = "user_b\<lparr>is_active := False, is_blocked := True,
                    updated_at := ''2024-02-01T10:00:00''\<rparr>"
  have us: "users ?d = [user_a, ?b, user_c]"
    by (simp add: users_set_user_blocked abc_db_def empty_db_def user_a_def user_b_def
        user_c_def)
  then have m: "?b \<in> set (users ?d)" by simp
  have t: "tg_id ?b = 102" by (simp add: user_b_def)
  from set_user_blocked_couples_is_active
    [of 102 True "''blocked''" "''2024-02-01T10:00:00''" abc_db] m t
  have "is_blocked ?b = True \<and> is_active ?b = (\<not> True)"
    and n: "102 \<notin> set (get_all_users ?d)"
    by blast+
  have g0: "get_all_users abc_db = [101, 102, 103]"
    by (simp add: get_all_users_def abc_db_def empty_db_def user_a_def user_b_def user_c_def)
  have g1: "get_all_users ?d = [101, 103]"
    by (simp add: get_all_users_def us user_a_def user_b_def user_c_def)
  have "users (set_user_blocked 102 False ''blocked'' ''2024-02-02T10:00:00'' ?d) =
      [user_a, user_b\<lparr>is_active := True, is_blocked := False,
                      updated_at := ''2024-02-02T10:00:00''\<rparr>, user_c]"
    by (simp add: users_set_user_blocked [of 102 False] us user_a_def user_b_def user_c_def)
  then have g2: "get_all_users (set_user_blocked 102 False ''blocked''
      ''2024-02-02T10:00:00'' ?d) = [101, 102, 103]"
    by (simp add: get_all_users_def user_a_def user_b_def user_c_def)
  from m n g0 g1 g2 show ?thesis by blast
qed

section \<open>Broadcast engine: properties\<close>

lemma broadcast_step_attempts:
  "attempts (broadcast_step deliver clock ip fid txt n u r) = attempts r @ [payload ip fid txt u]"
  by (cases "deliver (length (attempts r)) u") (simp_all add: broadcast_step_def Let_def)

lemma broadcast_step_sent:
  "sent (broadcast_step deliver clock ip fid txt n u r) =
     sent r + (if deliver (length (attempts r)) u = Delivered then 1 else 0)"
  by (cases "deliver (length (attempts r)) u") (simp_all add: broadcast_step_def Let_def)

lemma broadcast_step_failed:
  "failed (broadcast_step deliver clock ip fid txt n u r) =
     failed r + (if deliver (length (attempts r)) u = OtherError then 1 else 0)"
  by (cases "deliver (length (attempts r)) u") (simp_all add: broadcast_step_def Let_def)

lemma broadcast_step_blocked:
  "blocked (broadcast_step deliver clock ip fid txt n u r) =
     blocked r + (if deliver (length (attempts r)) u = Forbidden then 1 else 0)"
  by (cases "deliver (length (attempts r)) u") (simp_all add: broadcast_step_def Let_def)

lemma broadcast_step_run_db:
  "run_db (broadcast_step deliver clock ip fid txt n u r) =
     (if deliver (length (attempts r)) u = Forbidden
      then set_user_blocked u True ''blocked'' (clock (length (attempts r))) (run_db r)
      else run_db r)"
  by (cases "deliver (length (attempts r)) u") (simp_all add: broadcast_step_def Let_def)

lemma broadcast_loop_attempts:
  "attempts (broadcast_loop deliver clock ip fid txt n us r) =
     attempts r @ map (payload ip fid txt) us"
  by (induction us arbitrary: r) (simp_all add: broadcast_step_attempts)

lemma broadcast_loop_sent:
  "sent (broadcast_loop deliver clock ip fid txt n us r) =
     sent r + count_list (outcomes deliver (length (attempts r)) us) Delivered"
  by (induction us arbitrary: r) (simp_all add: broadcast_step_attempts broadcast_step_sent)

lemma broadcast_loop_failed:
  "failed (broadcast_loop deliver clock ip fid txt n us r) =
     failed r + count_list (outcomes deliver (length (attempts r)) us) OtherError"
  by (induction us arbitrary: r) (simp_all add: broadcast_step_attempts broadcast_step_failed)

lemma broadcast_loop_blocked:
  "blocked (broadcast_loop deliver clock ip fid txt n us r) =
     blocked r + count_list (outcomes deliver (length (attempts r)) us) Forbidden"
  by (induction us arbitrary: r) (simp_all add: broadcast_step_attempts broadcast_step_blocked)

lemma length_outcomes: "length (outcomes deliver k us) = length us"
  by (induction us arbitrary: k) simp_all

lemma count_outcomes:
  "count_list os Delivered + count_list os Forbidden + count_list os OtherError = length os"
proof (induction os)
  case Nil
  then show ?case by simp
next
  case (Cons x xs)
  then show ?case by (cases x) simp_all
qed

lemma success_rate_loop:
  assumes "us \<noteq> []"
  shows "success_rate (sent (broadcast_loop deliver clock ip fid txt n us
                        \<lparr>sent = 0, failed = 0, blocked = 0, run_db = d, attempts = [], progress = []\<rparr>))
           (failed (broadcast_loop deliver clock ip fid txt n us
                        \<lparr>sent = 0, failed = 0, blocked = 0, run_db = d, attempts = [], progress = []\<rparr>))
           (blocked (broadcast_loop deliver clock ip fid txt n us
                        \<lparr>sent = 0, failed = 0, blocked = 0, run_db = d, attempts = [], progress = []\<rparr>)) =
         Inr (real (count_list (outcomes deliver 0 us) Delivered) / real (length us) * 100)"
proof -
  let ?os = "outcomes deliver 0 us"
  have "count_list ?os Delivered + count_list ?os OtherError + count_list ?os Forbidden = length us"
    using count_outcomes [of ?os] by (simp add: length_outcomes)
  moreover from assms have "length us \<noteq> 0" by simp
  ultimately show ?thesis
    by (simp add: success_rate_def broadcast_loop_sent broadcast_loop_failed broadcast_loop_blocked)
qed


lemma process_broadcast_run:
  assumes adm: "from_user m = A"
    and us: "get_all_users (db s) \<noteq> []"
    and ph: "photo m \<noteq> Some []"
    and tx: "photo m = None \<longrightarrow> text_of m \<noteq> None \<and> text_of m \<noteq> Some []"
    and r: "r = broadcast_loop deliver clock (photo m \<noteq> None)
                 (case photo m of None \<Rightarrow> None | Some ps \<Rightarrow> Some (last ps))
                 (if photo m \<noteq> None then caption m else text_of m)
                 (length (get_all_users (db s))) (get_all_users (db s))
                 \<lparr>sent = 0, failed = 0, blocked = 0, run_db = db s, attempts = [], progress = []\<rparr>"
  shows "process_broadcast A deliver clock m s =
      \<lparr>raised = None,
       replies = Answer (BroadcastStarting (length (get_all_users (db s))) (photo m \<noteq> None)) #
                 progress r @
                 [EditText (BroadcastDone (sent r) (failed r) (blocked r) (photo m \<noteq> None)
                    (real (count_list (outcomes deliver 0 (get_all_users (db s))) Delivered) /
                     real (length (get_all_users (db s))) * 100))],
       sends = attempts r,
       after = state_clear A (s\<lparr>db := run_db r\<rparr>)\<rparr>"
proof -
  have sr: "success_rate (sent r) (failed r) (blocked r) =
      Inr (real (count_list (outcomes deliver 0 (get_all_users (db s))) Delivered) /
           real (length (get_all_users (db s))) * 100)"
    unfolding r by (rule success_rate_loop [OF us])
  have val: "\<not> ((if photo m \<noteq> None then caption m else text_of m) = None \<or>
                (if photo m \<noteq> None then caption m else text_of m) = Some []) \<or> photo m \<noteq> None"
    using tx by auto
  show ?thesis
    unfolding process_broadcast_def Let_def r [symmetric]
    using adm us ph val sr by (simp del: broadcast_loop.simps)
qed


lemma process_broadcast_no_users:
  assumes "from_user m = A" and "get_all_users (db s) = []"
  shows "process_broadcast A deliver clock m s =
     \<lparr>raised = None, replies = [Answer NoUsersForBroadcast], sends = [],
      after = state_clear A s\<rparr>"
  using assms by (simp add: process_broadcast_def)

lemma process_broadcast_not_admin:
  assumes "from_user m \<noteq> A"
  shows "process_broadcast A deliver clock m s =
     \<lparr>raised = None, replies = [], sends = [], after = s\<rparr>"
  using assms by (simp add: process_broadcast_def)

lemma process_broadcast_no_zero_division:
  "raised (process_broadcast A deliver clock m s) \<noteq> Some ZeroDivisionError"
proof (cases "from_user m = A")
  case False
  then show ?thesis by (simp add: process_broadcast_not_admin)
next
  case adm: True
  show ?thesis
  proof (cases "get_all_users (db s) = []")
    case True
    with adm show ?thesis by (simp add: process_broadcast_no_users)
  next
    case us: False
    show ?thesis
    proof (cases "photo m = Some []")
      case True
      with adm us show ?thesis by (simp add: process_broadcast_def Let_def)
    next
      case ph: False
      show ?thesis
      proof (cases "photo m = None \<longrightarrow> text_of m \<noteq> None \<and> text_of m \<noteq> Some []")
        case True
        from process_broadcast_run [OF adm us ph True refl] show ?thesis by simp
      next
        case False
        with adm us show ?thesis by (auto simp: process_broadcast_def Let_def)
      qed
    qed
  qed
qed

lemma get_all_users_row:
  "x \<in> set (get_all_users d) \<Longrightarrow> \<exists>u\<in>set (users d). tg_id u = x"
  unfolding get_all_users_def by (auto simp only: set_map set_filter image_iff mem_Collect_eq)

lemma broadcast_loop_three_db:
  assumes "deliver 0 a = Delivered" and "deliver 1 b = Forbidden" and "deliver 2 c = Delivered"
  shows "run_db (broadcast_loop deliver clock ip fid txt n [a, b, c]
           \<lparr>sent = 0, failed = 0, blocked = 0, run_db = d, attempts = [], progress = []\<rparr>) =
         set_user_blocked b True ''blocked'' (clock 1) d"
  using assms
  by (simp add: broadcast_step_run_db broadcast_step_attempts numeral_2_eq_2)

text \<open>
  C2. A broadcast by the administrator with content, over the recipients [A, B, C], in
  which the deliveries to A and C succeed and the delivery to B raises the forbidden
  error, ends with the report sent = 2, failed = 0, blocked = 1. The database after the
  run is the one before it with the single repository operation set_user_blocked applied
  for B: B has a user row, every row of B has \<open>is_blocked\<close> set, and the unsubscription
  rows are the old ones followed by one row for each user row of B.
\<close>

theorem broadcast_forbidden_recipient:
  assumes adm: "from_user m = A"
    and ph: "photo m \<noteq> Some []"
    and tx: "photo m = None \<longrightarrow> text_of m \<noteq> None \<and> text_of m \<noteq> Some []"
    and us: "get_all_users (db s) = [a, b, c]"
    and da: "deliver 0 a = Delivered" and dfb: "deliver 1 b = Forbidden"
    and dc: "deliver 2 c = Delivered"
    and res: "res = process_broadcast A deliver clock m s"
  shows "last (replies res) = EditText (BroadcastDone 2 0 1 (photo m \<noteq> None) (200 / 3)) \<and>
         db (after res) = set_user_blocked b True ''blocked'' (clock 1) (db s) \<and>
         (\<exists>u\<in>set (users (db (after res))). tg_id u = b) \<and>
         (\<forall>u\<in>set (users (db (after res))). tg_id u = b \<longrightarrow> is_blocked u) \<and>
         (\<exists>u\<in>set (users (db s)). tg_id u = b \<and>
            \<lparr>unsub_user_id = u_id u, unsub_reason = ''blocked'', unsub_created_at = clock 1\<rparr>
              \<in> set (unsubscriptions (db (after res)))) \<and>
         unsubscriptions (db (after res)) =
           unsubscriptions (db s) @
             map (\<lambda>u. \<lparr>unsub_user_id = u_id u, unsub_reason = ''blocked'',
                       unsub_created_at = clock 1\<rparr>)
               (filter (\<lambda>u. tg_id u = b) (users (db s)))"
proof -
  have ne: "get_all_users (db s) \<noteq> []" by (simp add: us)
  have os: "outcomes deliver 0 [a, b, c] = [Delivered, Forbidden, Delivered]"
    using da dfb dc by (simp add: numeral_2_eq_2)
  note eq = process_broadcast_run [OF adm ne ph tx refl, of deliver clock]
  have 1: "last (replies res) = EditText (BroadcastDone 2 0 1 (photo m \<noteq> None) (200 / 3))"
    unfolding res eq us
    by (simp add: broadcast_loop_sent broadcast_loop_failed broadcast_loop_blocked os
        del: broadcast_loop.simps outcomes.simps)
  have 2: "db (after res) = set_user_blocked b True ''blocked'' (clock 1) (db s)"
    unfolding res eq us
    by (simp add: state_clear_def set_fsm_def broadcast_loop_three_db [OF da dfb dc]
        del: broadcast_loop.simps)
  have "b \<in> set (get_all_users (db s))" by (simp add: us)
  then obtain u where u: "u \<in> set (users (db s))" "tg_id u = b"
    using get_all_users_row by blast
  have "b \<in> set (map tg_id (users (db s)))" using u by force
  then have "b \<in> set (map tg_id (users (db (after res))))"
    unfolding 2 by (simp only: set_user_blocked_tg_ids)
  then have 3: "\<exists>u\<in>set (users (db (after res))). tg_id u = b" by auto
  have 4: "\<forall>u\<in>set (users (db (after res))). tg_id u = b \<longrightarrow> is_blocked u"
    unfolding 2 using set_user_blocked_row [of _ b True "''blocked''" "clock 1" "db s"] by blast
  have 6: "unsubscriptions (db (after res)) =
           unsubscriptions (db s) @
             map (\<lambda>u. \<lparr>unsub_user_id = u_id u, unsub_reason = ''blocked'',
                       unsub_created_at = clock 1\<rparr>)
               (filter (\<lambda>u. tg_id u = b) (users (db s)))"
    unfolding 2 by (rule unsubscriptions_set_user_blocked)
  have "\<lparr>unsub_user_id = u_id u, unsub_reason = ''blocked'', unsub_created_at = clock 1\<rparr>
              \<in> set (unsubscriptions (db (after res)))"
    unfolding 6 using u by (auto simp only: set_append set_map set_filter image_iff mem_Collect_eq Un_iff)
  with u have 5: "\<exists>u\<in>set (users (db s)). tg_id u = b \<and>
            \<lparr>unsub_user_id = u_id u, unsub_reason = ''blocked'', unsub_created_at = clock 1\<rparr>
              \<in> set (unsubscriptions (db (after res)))"
    by blast
  from 1 2 3 4 5 6 show ?thesis by blast
qed


theorem broadcast_forbidden_recipient_witness:
  "from_user hello_message = 1 \<and> get_all_users (db abc_bot) = [101, 102, 103] \<and>
   b_forbidden 0 101 = Delivered \<and> b_forbidden 1 102 = Forbidden \<and>
   b_forbidden 2 103 = Delivered \<and>
   last (replies (process_broadcast 1 b_forbidden fixed_clock hello_message abc_bot)) =
     EditText (BroadcastDone 2 0 1 False (200 / 3)) \<and>
   users (db (after (process_broadcast 1 b_forbidden fixed_clock hello_message abc_bot))) =
     [user_a,
      user_b\<lparr>is_active := False, is_blocked := True, updated_at := ''2024-02-01T10:00:00''\<rparr>,
      user_c] \<and>
   unsubscriptions
     (db (after (process_broadcast 1 b_forbidden fixed_clock hello_message abc_bot))) =
     [\<lparr>unsub_user_id = 2, unsub_reason = ''blocked'',
       unsub_created_at = ''2024-02-01T10:00:00''\<rparr>]"
proof -
  let ?res = "process_broadcast 1 b_forbidden fixed_clock hello_message abc_bot"
  have a: "from_user hello_message = 1" by (simp add: hello_message_def)
  have g: "get_all_users (db abc_bot) = [101, 102, 103]"
    by (simp add: abc_bot_def get_all_users_def abc_db_def empty_db_def user_a_def user_b_def
        user_c_def)
  have p: "photo hello_message \<noteq> Some []" by (simp add: hello_message_def)
  have t: "photo hello_message = None \<longrightarrow>
      text_of hello_message \<noteq> None \<and> text_of hello_message \<noteq> Some []"
    by (simp add: hello_message_def)
  have d1: "b_forbidden 0 101 = Delivered" and d2: "b_forbidden 1 102 = Forbidden"
    and d3: "b_forbidden 2 103 = Delivered"
    by (simp_all add: b_forbidden_def)
  from broadcast_forbidden_recipient [OF a p t g d1 d2 d3 refl, of fixed_clock]
  have r: "last (replies ?res) =
      EditText (BroadcastDone 2 0 1 (photo hello_message \<noteq> None) (200 / 3))"
    and e: "db (after ?res) =
      set_user_blocked 102 True ''blocked'' (fixed_clock 1) (db abc_bot)"
    by blast+
  from r have r': "last (replies ?res) = EditText (BroadcastDone 2 0 1 False (200 / 3))"
    by (simp add: hello_message_def)
  have u: "users (db (after ?res)) =
     [user_a,
      user_b\<lparr>is_active := False, is_blocked := True, updated_at := ''2024-02-01T10:00:00''\<rparr>,
      user_c]"
    unfolding e
    by (simp add: users_set_user_blocked abc_bot_def abc_db_def empty_db_def fixed_clock_def
        user_a_def user_b_def user_c_def)
  have n: "unsubscriptions (db (after ?res)) =
     [\<lparr>unsub_user_id = 2, unsub_reason = ''blocked'',
       unsub_created_at = ''2024-02-01T10:00:00''\<rparr>]"
    unfolding e
    by (simp add: unsubscriptions_set_user_blocked abc_bot_def abc_db_def empty_db_def
        fixed_clock_def user_a_def user_b_def user_c_def)
  from a g d1 d2 d3 r' u n show ?thesis by blast
qed

text \<open>
  C3 (as the code has it). When the administrator starts a broadcast and the recipient
  snapshot is empty, the handler answers that there are no users, clears the FSM state
  and returns: it sends nothing, produces no terminal report and computes no success
  ratio. No run of the handler ends in a division by zero.
\<close>

theorem empty_broadcast_ends_early:
  "(from_user m = A \<and> get_all_users (db s) = [] \<longrightarrow>
      process_broadcast A deliver clock m s =
        \<lparr>raised = None, replies = [Answer NoUsersForBroadcast], sends = [],
         after = state_clear A s\<rparr>) \<and>
   raised (process_broadcast A deliver clock m s) \<noteq> Some ZeroDivisionError"
  using process_broadcast_no_users [of m A s deliver clock]
    process_broadcast_no_zero_division [of A deliver clock m s]
  by blast

theorem empty_broadcast_ends_early_witness:
  "from_user hello_message = 1 \<and> get_all_users (db initial_bot) = [] \<and>
   process_broadcast 1 all_delivered fixed_clock hello_message initial_bot =
     \<lparr>raised = None, replies = [Answer NoUsersForBroadcast], sends = [],
      after = state_clear 1 initial_bot\<rparr> \<and>
   raised (process_broadcast 1 b_forbidden fixed_clock hello_message abc_bot) \<noteq>
     Some ZeroDivisionError"
proof -
  have a: "from_user hello_message = 1" by (simp add: hello_message_def)
  have b: "get_all_users (db initial_bot) = []"
    by (simp add: initial_bot_def empty_db_def get_all_users_def)
  from empty_broadcast_ends_early [of hello_message 1 initial_bot all_delivered fixed_clock] a b
  have c: "process_broadcast 1 all_delivered fixed_clock hello_message initial_bot =
     \<lparr>raised = None, replies = [Answer NoUsersForBroadcast], sends = [],
      after = state_clear 1 initial_bot\<rparr>"
    by blast
  from empty_broadcast_ends_early [of hello_message 1 abc_bot b_forbidden fixed_clock]
  have d: "raised (process_broadcast 1 b_forbidden fixed_clock hello_message abc_bot) \<noteq>
     Some ZeroDivisionError"
    by blast
  from a b c d show ?thesis by blast
qed

text \<open>
  C3 as the specification words it fails: with no recipients the only thing the handler
  shows is the notice that there are no users; there is no terminal report with a
  success ratio of 0.
\<close>

theorem empty_broadcast_has_no_report:
  "replies (process_broadcast 1 all_delivered fixed_clock hello_message initial_bot) =
     [Answer NoUsersForBroadcast]"
  by (simp add: process_broadcast_def hello_message_def initial_bot_def empty_db_def
      get_all_users_def)


text \<open>
  C4. A broadcast by the administrator with content over a non-empty recipient list,
  whatever the outcomes of the deliveries: the run does not raise, it makes one delivery
  call for every recipient, in the order of the list, the report counts as sent, failed
  and blocked the deliveries that succeeded, that raised another error and that raised
  the forbidden error, and the three counts add up to the number of recipients.
\<close>

theorem broadcast_tolerates_partial_failure:
  assumes adm: "from_user m = A"
    and us: "get_all_users (db s) \<noteq> []"
    and ph: "photo m \<noteq> Some []"
    and tx: "photo m = None \<longrightarrow> text_of m \<noteq> None \<and> text_of m \<noteq> Some []"
    and os: "os = outcomes deliver 0 (get_all_users (db s))"
    and res: "res = process_broadcast A deliver clock m s"
  shows "raised res = None \<and>
         sends res =
           map (payload (photo m \<noteq> None)
                  (case photo m of None \<Rightarrow> None | Some ps \<Rightarrow> Some (last ps))
                  (if photo m \<noteq> None then caption m else text_of m))
               (get_all_users (db s)) \<and>
         last (replies res) =
           EditText (BroadcastDone (count_list os Delivered) (count_list os OtherError)
             (count_list os Forbidden) (photo m \<noteq> None)
             (real (count_list os Delivered) / real (length (get_all_users (db s))) * 100)) \<and>
         count_list os Delivered + count_list os Forbidden + count_list os OtherError =
           length (get_all_users (db s))"
proof -
  have c: "count_list os Delivered + count_list os Forbidden + count_list os OtherError =
           length (get_all_users (db s))"
    using count_outcomes [of os] by (simp add: os length_outcomes)
  note eq = process_broadcast_run [OF adm us ph tx refl, of deliver clock]
  have 1: "raised res = None"
    unfolding res eq by simp
  have 2: "sends res =
           map (payload (photo m \<noteq> None)
                  (case photo m of None \<Rightarrow> None | Some ps \<Rightarrow> Some (last ps))
                  (if photo m \<noteq> None then caption m else text_of m))
               (get_all_users (db s))"
    unfolding res eq by (simp add: broadcast_loop_attempts del: broadcast_loop.simps)
  have 3: "last (replies res) =
           EditText (BroadcastDone (count_list os Delivered) (count_list os OtherError)
             (count_list os Forbidden) (photo m \<noteq> None)
             (real (count_list os Delivered) / real (length (get_all_users (db s))) * 100))"
    unfolding res eq os
    by (simp add: broadcast_loop_sent broadcast_loop_failed broadcast_loop_blocked
        del: broadcast_loop.simps)
  from 1 2 3 c show ?thesis by blast
qed

theorem broadcast_tolerates_partial_failure_witness:
  "from_user hello_message = 1 \<and> get_all_users (db abc_bot) = [101, 102, 103] \<and>
   outcomes b_forbidden 0 [101, 102, 103] = [Delivered, Forbidden, Delivered] \<and>
   raised (process_broadcast 1 b_forbidden fixed_clock hello_message abc_bot) = None \<and>
   sends (process_broadcast 1 b_forbidden fixed_clock hello_message abc_bot) =
     [SendMessage 101 (Some ''hello''), SendMessage 102 (Some ''hello''),
      SendMessage 103 (Some ''hello'')] \<and>
   last (replies (process_broadcast 1 b_forbidden fixed_clock hello_message abc_bot)) =
     EditText (BroadcastDone 2 0 1 False (200 / 3))"
proof -
  have a: "from_user hello_message = 1" by (simp add: hello_message_def)
  have g: "get_all_users (db abc_bot) = [101, 102, 103]"
    by (simp add: abc_bot_def get_all_users_def abc_db_def empty_db_def user_a_def user_b_def
        user_c_def)
  have u: "get_all_users (db abc_bot) \<noteq> []" by (simp add: g)
  have p: "photo hello_message \<noteq> Some []" by (simp add: hello_message_def)
  have t: "photo hello_message = None \<longrightarrow>
      text_of hello_message \<noteq> None \<and> text_of hello_message \<noteq> Some []"
    by (simp add: hello_message_def)
  have o: "outcomes b_forbidden 0 [101, 102, 103] = [Delivered, Forbidden, Delivered]"
    by (simp add: b_forbidden_def)
  then have o': "[Delivered, Forbidden, Delivered] =
      outcomes b_forbidden 0 (get_all_users (db abc_bot))"
    by (simp add: g)
  from broadcast_tolerates_partial_failure [OF a u p t o' refl, of fixed_clock]
  have "raised (process_broadcast 1 b_forbidden fixed_clock hello_message abc_bot) = None"
    and "sends (process_broadcast 1 b_forbidden fixed_clock hello_message abc_bot) =
     [SendMessage 101 (Some ''hello''), SendMessage 102 (Some ''hello''),
      SendMessage 103 (Some ''hello'')]"
    and "last (replies (process_broadcast 1 b_forbidden fixed_clock hello_message abc_bot)) =
     EditText (BroadcastDone 2 0 1 False (200 / 3))"
    by (simp_all add: g hello_message_def payload_def)
  with a g o show ?thesis by blast
qed


section \<open>Administrator gate\<close>

text \<open>
  C9. When the sender is not the configured administrator, each administrator-only
  handler leaves the globals (FSM storage, database, anti-spam state and caches) exactly
  as they were. The two commands answer that the command is not recognised, the four
  callbacks answer with the no-access alert, and the broadcast-composition handler
  returns without any output.
\<close>

theorem admin_gate:
  assumes "sender \<noteq> A" and "from_user m = sender" and "cb_from_user cb = sender"
  shows "cmd_admin A m s = ([Answer NotRecognised], s) \<and>
         cmd_stats A m s = ([Answer NotRecognised], s) \<and>
         admin_stats_callback A log_admin_action get_admin_stats outcome cb s =
           ([AnswerCallback (Some NoAccess) True], s) \<and>
         admin_broadcast_callback A outcome cb s = ([AnswerCallback (Some NoAccess) True], s) \<and>
         admin_users_callback A get_admin_stats outcome cb s =
           ([AnswerCallback (Some NoAccess) True], s) \<and>
         admin_clear_cache A cb s = ([AnswerCallback (Some NoAccess) True], s) \<and>
         process_broadcast A deliver clock m s =
           \<lparr>raised = None, replies = [], sends = [], after = s\<rparr>"
proof -
  from assms have m: "from_user m \<noteq> A" and c: "cb_from_user cb \<noteq> A" by simp_all
  have 1: "cmd_admin A m s = ([Answer NotRecognised], s)"
    using m by (simp add: cmd_admin_def)
  have 2: "cmd_stats A m s = ([Answer NotRecognised], s)"
    using m by (simp add: cmd_stats_def)
  have 3: "admin_stats_callback A log_admin_action get_admin_stats outcome cb s =
           ([AnswerCallback (Some NoAccess) True], s)"
    using c by (simp add: admin_stats_callback_def)
  have 4: "admin_broadcast_callback A outcome cb s = ([AnswerCallback (Some NoAccess) True], s)"
    using c by (simp add: admin_broadcast_callback_def)
  have 5: "admin_users_callback A get_admin_stats outcome cb s =
           ([AnswerCallback (Some NoAccess) True], s)"
    using c by (simp add: admin_users_callback_def)
  have 6: "admin_clear_cache A cb s = ([AnswerCallback (Some NoAccess) True], s)"
    using c by (simp add: admin_clear_cache_def)
  have 7: "process_broadcast A deliver clock m s =
           \<lparr>raised = None, replies = [], sends = [], after = s\<rparr>"
    using m by (rule process_broadcast_not_admin)
  from 1 2 3 4 5 6 7 show ?thesis by blast
qed

theorem admin_gate_witness:
  "(999 :: int) \<noteq> 1 \<and>
   cmd_admin 1 outsider_message abc_bot = ([Answer NotRecognised], abc_bot) \<and>
   cmd_stats 1 outsider_message abc_bot = ([Answer NotRecognised], abc_bot) \<and>
   admin_stats_callback 1 no_log count_stats Edited outsider_callback abc_bot =
     ([AnswerCallback (Some NoAccess) True], abc_bot) \<and>
   admin_broadcast_callback 1 Edited outsider_callback abc_bot =
     ([AnswerCallback (Some NoAccess) True], abc_bot) \<and>
   admin_users_callback 1 count_stats Edited outsider_callback abc_bot =
     ([AnswerCallback (Some NoAccess) True], abc_bot) \<and>
   admin_clear_cache 1 outsider_callback abc_bot =
     ([AnswerCallback (Some NoAccess) True], abc_bot) \<and>
   process_broadcast 1 b_forbidden fixed_clock outsider_message abc_bot =
     \<lparr>raised = None, replies = [], sends = [], after = abc_bot\<rparr>"
proof -
  have a: "(999 :: int) \<noteq> 1" by simp
  have b: "from_user outsider_message = 999" by (simp add: outsider_message_def)
  have c: "cb_from_user outsider_callback = 999" by (simp add: outsider_callback_def)
  from admin_gate [OF a b c, of abc_bot no_log count_stats Edited b_forbidden fixed_clock] a
  show ?thesis by blast
qed

section \<open>City resolver: properties\<close>

text \<open>
  For a pattern without wildcards followed by \<^verbatim>\<open>%\<close>, \<^verbatim>\<open>LIKE\<close> is the prefix test; trimming
  and lower-casing bring no wildcard into an input that has none.
\<close>

lemma sql_like_percent: "sql_like ''%'' s"
  by (induction s) simp_all

lemma sql_like_prefix:
  "CHR ''%'' \<notin> set p \<Longrightarrow> CHR ''_'' \<notin> set p \<Longrightarrow> sql_like (p @ ''%'') s = prefix p s"
proof (induction p arbitrary: s)
  case Nil
  then show ?case using sql_like_percent by simp
next
  case (Cons c p)
  then show ?case by (cases s) auto
qed

lemma lower_char_of_char:
  "(of_char (lower_char c) :: nat) =
     (if 65 \<le> (of_char c :: nat) \<and> (of_char c :: nat) \<le> 90 then of_char c + 32 else of_char c)"
  by (simp add: lower_char_def Let_def)

lemma lower_char_percent: "lower_char c = CHR ''%'' \<Longrightarrow> c = CHR ''%''"
proof -
  assume a: "lower_char c = CHR ''%''"
  then have "(of_char (lower_char c) :: nat) = of_char (CHR ''%'')" by simp
  then have "(of_char c :: nat) = of_char (CHR ''%'')"
    unfolding lower_char_of_char by (simp split: if_splits)
  then show ?thesis by (simp only: of_char_eq_iff)
qed

lemma lower_char_underscore: "lower_char c = CHR ''_'' \<Longrightarrow> c = CHR ''_''"
proof -
  assume a: "lower_char c = CHR ''_''"
  then have "(of_char (lower_char c) :: nat) = of_char (CHR ''_'')" by simp
  then have "(of_char c :: nat) = of_char (CHR ''_'')"
    unfolding lower_char_of_char by (simp split: if_splits)
  then show ?thesis by (simp only: of_char_eq_iff)
qed

lemma set_strip: "set (strip s) \<subseteq> set s"
proof
  fix c assume "c \<in> set (strip s)"
  then have "c \<in> set (dropWhile is_space (rev (dropWhile is_space s)))"
    by (simp add: strip_def)
  then have "c \<in> set (rev (dropWhile is_space s))" by (rule set_dropWhileD)
  then have "c \<in> set (dropWhile is_space s)" by simp
  then show "c \<in> set s" by (rule set_dropWhileD)
qed

lemma no_wildcard_normalised:
  assumes "CHR ''%'' \<notin> set x" and "CHR ''_'' \<notin> set x"
  shows "CHR ''%'' \<notin> set (sql_lower (strip x)) \<and> CHR ''_'' \<notin> set (sql_lower (strip x))"
proof (intro conjI notI)
  assume "CHR ''%'' \<in> set (sql_lower (strip x))"
  then obtain c where "c \<in> set (strip x)" and "lower_char c = CHR ''%''"
    by (auto simp: sql_lower_def)
  with lower_char_percent set_strip [of x] have "CHR ''%'' \<in> set x" by blast
  with assms show False by simp
next
  assume "CHR ''_'' \<in> set (sql_lower (strip x))"
  then obtain c where "c \<in> set (strip x)" and "lower_char c = CHR ''_''"
    by (auto simp: sql_lower_def)
  with lower_char_underscore set_strip [of x] have "CHR ''_'' \<in> set x" by blast
  with assms show False by simp
qed

lemma find_city_exact_wins:
  "find_city_by_alias d x = Some c \<Longrightarrow> find_city d x = Some c"
  by (simp add: find_city_def)

lemma find_cities_by_prefix_no_wildcard:
  assumes "CHR ''%'' \<notin> set x" and "CHR ''_'' \<notin> set x"
  shows "find_cities_by_prefix d x limit =
     map row_dict
       (take limit
          (sort_key (\<lambda>r. length (alias_name (fst r)))
             (filter (\<lambda>r. prefix (sql_lower (strip x)) (sql_lower (alias_name (fst r)))
                           \<and> city_is_active (snd r)) (alias_join d))))"
  using no_wildcard_normalised [OF assms]
  by (simp add: find_cities_by_prefix_def sql_like_prefix)

lemma sort_key_hd_least:
  assumes "sort_key f xs = y # ys" and "x \<in> set xs"
  shows "f y \<le> f x"
proof -
  have "sorted (map f (sort_key f xs))" by (rule sorted_sort_key)
  moreover have "x \<in> set (sort_key f xs)" using assms(2) by simp
  ultimately show ?thesis unfolding assms(1) by auto
qed


text \<open>
  The order of resolution for an input without the wildcards \<^verbatim>\<open>%\<close> and \<^verbatim>\<open>_\<close>: the first
  active row whose alias equals the trimmed input up to case, if there is one; otherwise
  an active row whose alias has the trimmed input as a prefix up to case and is of least
  length among these; otherwise nothing.
\<close>

lemma find_city_resolution_order:
  assumes nw: "CHR ''%'' \<notin> set x" "CHR ''_'' \<notin> set x"
    and ex: "exact = filter (\<lambda>r. sql_lower (alias_name (fst r)) = sql_lower (strip x)
                                   \<and> city_is_active (snd r)) (alias_join d)"
    and pr: "pre = filter (\<lambda>r. prefix (sql_lower (strip x)) (sql_lower (alias_name (fst r)))
                                 \<and> city_is_active (snd r)) (alias_join d)"
  shows "(exact \<noteq> [] \<longrightarrow> find_city d x = Some (row_dict (hd exact))) \<and>
         (exact = [] \<and> pre = [] \<longrightarrow> find_city d x = None) \<and>
         (exact = [] \<and> pre \<noteq> [] \<longrightarrow>
            (\<exists>row\<in>set pre. find_city d x = Some (row_dict row) \<and>
               (\<forall>r\<in>set pre. length (alias_name (fst row)) \<le> length (alias_name (fst r)))))"
proof (intro conjI impI)
  assume "exact \<noteq> []"
  then obtain r rs where "exact = r # rs" by (cases exact) auto
  then show "find_city d x = Some (row_dict (hd exact))"
    unfolding find_city_def find_city_by_alias_def ex [symmetric] by simp
next
  assume "exact = [] \<and> pre = []"
  then show "find_city d x = None"
    unfolding find_city_def find_city_by_alias_def ex [symmetric]
      find_cities_by_prefix_no_wildcard [OF nw] pr [symmetric]
    by simp
next
  assume a: "exact = [] \<and> pre \<noteq> []"
  let ?f = "\<lambda>r. length (alias_name (fst r))"
  from a have "sort_key ?f pre \<noteq> []" by (metis length_0_conv length_sort)
  then obtain row rest where sk: "sort_key ?f pre = row # rest"
    by (cases "sort_key ?f pre") auto
  then have "row \<in> set (sort_key ?f pre)" by simp
  then have mem: "row \<in> set pre" by simp
  have least: "\<forall>r\<in>set pre. ?f row \<le> ?f r"
    using sort_key_hd_least [OF sk] by blast
  have "find_city d x = Some (row_dict row)"
    unfolding find_city_def find_city_by_alias_def ex [symmetric]
      find_cities_by_prefix_no_wildcard [OF nw] pr [symmetric]
    using a sk by simp
  with mem least show "\<exists>row\<in>set pre. find_city d x = Some (row_dict row) \<and>
               (\<forall>r\<in>set pre. length (alias_name (fst row)) \<le> length (alias_name (fst r)))"
    by blast
qed

text \<open>
  C5. The resolver tries the exact alias match first and then falls back to what the
  docstring of find_cities_by_prefix calls a search by prefix. The fallback puts the
  input unescaped into the \<^verbatim>\<open>LIKE\<close> pattern, so for an input that contains a wildcard it
  is not a prefix match: with the aliases Kyi, Kyiv and Kiev in the table, the input
  \<^verbatim>\<open>%iv\<close> equals no alias and is a prefix of none of them, up to case, and find_city
  returns the city Kyiv all the same.
\<close>

theorem find_city_wildcard_input:
  "find_city_by_alias kyiv_db ''%iv'' = None \<and>
   \<not> prefix (sql_lower (strip ''%iv'')) (sql_lower ''Kyi'') \<and>
   \<not> prefix (sql_lower (strip ''%iv'')) (sql_lower ''Kyiv'') \<and>
   \<not> prefix (sql_lower (strip ''%iv'')) (sql_lower ''Kiev'') \<and>
   find_city kyiv_db ''%iv'' = Some kyiv_dict"
  by code_simp

end
